theory Spec2Isabelle
  imports Complex_Main "HOL-Library.AList"
begin

section \<open>Scheduler: CesiumCallbackHelper\<close>

text \<open>
  Simulated time (a Cesium JulianDate) is a label in this model, written as a number;
  the model does no arithmetic on it.
\<close>

type_synonym julian = real

text \<open>
  \<^verbatim>\<open>createPeriodicTickCallback(viewer, refreshRate, callback)\<close> registers a closure over the
  local variable \<^verbatim>\<open>ticks\<close>. The closure is the function below: it takes the value of
  \<^verbatim>\<open>ticks\<close> and the rest of the program state, and returns both as the call leaves
  them. \<open>now\<close> is \<^verbatim>\<open>viewer.clock.currentTime\<close> at the call.
\<close>

definition periodicTickListener ::
  "nat \<Rightarrow> (julian \<Rightarrow> 's \<Rightarrow> 's) \<Rightarrow> julian \<Rightarrow> nat \<times> 's \<Rightarrow> nat \<times> 's" where
  "periodicTickListener refreshRate callback now = (\<lambda>(ticks, s).
     if ticks < refreshRate then (ticks + 1, s)
     else (0, callback now s))"

text \<open>
  \<^verbatim>\<open>createPeriodicTimeCallback(viewer, refreshRate, callback)\<close>: the closure over
  \<^verbatim>\<open>lastUpdated\<close>. \<^verbatim>\<open>JulianDate.secondsDifference\<close> belongs to the engine and is a
  parameter: \<open>secondsDifference a b\<close> is the number the engine returns for the two dates,
  rounded as the engine rounds it. A finite double is read as the real number it
  denotes, on which \<^verbatim>\<open>Math.abs\<close> and the comparison are exact; for two dates of
  the clock the engine's result is such a number. \<open>'t\<close> is the type of dates.
\<close>

definition periodicTimeListener ::
  "('t \<Rightarrow> 't \<Rightarrow> real) \<Rightarrow> real \<Rightarrow> ('t \<Rightarrow> 's \<Rightarrow> 's) \<Rightarrow> 't \<Rightarrow> 't \<times> 's \<Rightarrow> 't \<times> 's" where
  "periodicTimeListener secondsDifference refreshRate callback time = (\<lambda>(lastUpdated, s).
     let delta = \<bar>secondsDifference time lastUpdated\<bar>
     in if delta < refreshRate then (lastUpdated, s)
        else (time, callback time s))"

text \<open>
  A user callback that only records the argument it was invoked with; the program state
  is then the list of invocations so far.
\<close>

definition record_call :: "'t \<Rightarrow> 't list \<Rightarrow> 't list" where
  "record_call t invocations = invocations @ [t]"

text \<open>
  One registration driven through a sequence of frame ticks; each tick carries the
  simulated time the clock shows on it. The tick callback starts with \<^verbatim>\<open>ticks = 0\<close>,
  the time callback with \<^verbatim>\<open>lastUpdated\<close> the clock's time at registration.
\<close>

definition tickRun :: "nat \<Rightarrow> julian list \<Rightarrow> nat \<times> julian list \<Rightarrow> nat \<times> julian list" where
  "tickRun refreshRate stamps = fold (periodicTickListener refreshRate record_call) stamps"

definition timeRun ::
  "('t \<Rightarrow> 't \<Rightarrow> real) \<Rightarrow> real \<Rightarrow> 't list \<Rightarrow> 't \<times> 't list \<Rightarrow> 't \<times> 't list" where
  "timeRun secondsDifference refreshRate stamps =
     fold (periodicTimeListener secondsDifference refreshRate record_call) stamps"

section \<open>Host objects\<close>

text \<open>
  A component is an object held by reference; the number is its identity within its
  class. The constructors are the answers of the \<^verbatim>\<open>instanceof\<close> tests on it (\<open>Other\<close>:
  none of the three classes). \<open>Inherited name\<close> is the value that \<^verbatim>\<open>Object.prototype\<close>
  holds under \<open>name\<close>, which is an instance of none of the three classes either.
\<close>

datatype component =
  Entity nat | Primitive nat | GeometryInstance nat | Other nat | Inherited string

text \<open>
  The names that every object inherits from \<^verbatim>\<open>Object.prototype\<close> (ECMAScript, with
  its annex B).
\<close>

definition objectPrototypeNames :: "string list" where
  "objectPrototypeNames = [''constructor'', ''hasOwnProperty'', ''isPrototypeOf'',
     ''propertyIsEnumerable'', ''toLocaleString'', ''toString'', ''valueOf'', ''__proto__'',
     ''__defineGetter__'', ''__defineSetter__'', ''__lookupGetter__'', ''__lookupSetter__'']"

text \<open>
  What the scene's primitive collection holds: a primitive stored as a component, or a
  primitive built by \<^verbatim>\<open>new Cesium.Primitive\<close> in the rebuild. The two are different
  objects whatever their numbers.
\<close>

datatype scene_primitive = StoredPrimitive nat | BatchedPrimitive nat

text \<open>
  A 4x4 matrix is either the default \<^verbatim>\<open>Matrix4.IDENTITY\<close> of a new primitive or the result
  of \<^verbatim>\<open>Matrix4.fromRotationTranslation(rotation)\<close>; \<open>'r\<close> is the type of the 3x3 rotation
  that \<^verbatim>\<open>Transforms.computeIcrfToFixedMatrix\<close> returns.
\<close>

datatype 'r matrix4 = IDENTITY | FromRotationTranslation 'r

text \<open>
  The primitive built by \<^verbatim>\<open>new Cesium.Primitive({geometryInstances, appearance})\<close>.
  \<open>geometryInstances\<close> is a reference to the array it was given, not a copy: it is
  the address of that array in the world's \<open>arrays\<close>.
\<close>

record 'r primitive_obj =
  objId :: nat
  geometryInstances :: nat
  modelMatrix :: "'r matrix4"

text \<open>
  What the host shows during one frame: the clock's time, the candidate primitive's
  \<^verbatim>\<open>ready\<close> flag and \<^verbatim>\<open>_state\<close> (both advanced by the rendering engine, outside this
  code), and the frame-transform provider, which returns \<^verbatim>\<open>undefined\<close> (\<open>None\<close>) while it
  cannot compute the rotation.
\<close>

record 'r frame =
  frameTime :: julian
  candidateReady :: bool
  candidateState :: int
  computeIcrfToFixedMatrix :: "julian \<Rightarrow> 'r option"

text \<open>
  The closures registered on \<^verbatim>\<open>viewer.clock.onTick\<close>, each with its captured variables:
  \<^item> \<open>PeriodicTick refreshRate ticks\<close>: the closure of \<^verbatim>\<open>createPeriodicTickCallback\<close> whose
    callback is the rebuild callback of \<^verbatim>\<open>recreateGeometryInstancePrimitive\<close>;
  \<^item> \<open>ReadyPoll primitive lastState\<close>: the readiness poll of a candidate primitive;
  \<^item> \<open>TrackedTick\<close>: the per-tick listener of \<^verbatim>\<open>setTrackedOnTickCallback\<close>.
  \<open>Untrack h\<close> is the closure registered on \<^verbatim>\<open>viewer.trackedEntityChanged\<close>; \<open>h\<close> is the
  handle of the per-tick listener it removes.
\<close>

datatype 'r listener =
    PeriodicTick nat nat
  | ReadyPoll "'r primitive_obj" int
  | TrackedTick

datatype changed_listener = Untrack nat

text \<open>
  Invocations of the user's callbacks, named by the handle of the registration's
  per-tick listener. The callbacks themselves are opaque: they are taken not to touch
  the listeners or the collections.
\<close>

datatype call = OnTickCall nat julian | OnUntrackCall nat

text \<open>
  The viewer, together with the static fields of the collection class
  (\<open>geometries\<close>, \<open>primitive\<close>, \<open>primitivePendingUpdate\<close>, \<open>primitivePendingCreation\<close>).
  An event is the list of its listeners in registration order, each under the handle
  that its removal function stands for. \<open>arrays\<close> is the store of the arrays of geometry
  instances, by address; \<open>geometries\<close> is the address of the array the static field
  refers to, and \<open>nextArray\<close> the address the next new array gets.
\<close>

record 'r world =
  currentTime :: julian
  entities :: "nat list"
  primitives :: "scene_primitive list"
  renderRequests :: nat
  primitiveUpdates :: nat
  onTick :: "(nat \<times> 'r listener) list"
  trackedEntityChanged :: "(nat \<times> changed_listener) list"
  nextHandle :: nat
  nextObject :: nat
  calls :: "call list"
  arrays :: "nat \<Rightarrow> nat list"
  nextArray :: nat
  geometries :: nat
  primitive :: "'r primitive_obj option"
  primitivePendingUpdate :: bool
  primitivePendingCreation :: bool

definition initial_world :: "'r world" where
  "initial_world = \<lparr> currentTime = 0, entities = [], primitives = [], renderRequests = 0,
     primitiveUpdates = 0, onTick = [], trackedEntityChanged = [], nextHandle = 0,
     nextObject = 0, calls = [], arrays = (\<lambda>a. []), nextArray = 1, geometries = 0,
     primitive = None,
     primitivePendingUpdate = False, primitivePendingCreation = False \<rparr>"

subsection \<open>Events\<close>

text \<open>
  Modelled from the spec: \<^verbatim>\<open>Cesium.Event\<close> (the engine's class, not part of this
  repository). \<^verbatim>\<open>addEventListener\<close> appends the listener and returns its removal function;
  calling that function removes the listener, any number of times and also from within a
  listener; raising the event calls, in registration order, the listeners that were
  registered when the raise began and have not been removed since.
\<close>

text \<open>
  Modelled from the spec: the scene's collections (the engine's \<^verbatim>\<open>EntityCollection\<close> and
  \<^verbatim>\<open>PrimitiveCollection\<close>). \<^verbatim>\<open>add\<close> appends, \<^verbatim>\<open>contains\<close> is membership, and after
  \<^verbatim>\<open>remove(x)\<close> the collection does not contain \<open>x\<close>; \<^verbatim>\<open>remove(undefined)\<close> does nothing.
\<close>

definition addOnTick :: "'r listener \<Rightarrow> 'r world \<Rightarrow> nat \<times> 'r world" where
  "addOnTick l w = (nextHandle w,
     w\<lparr>onTick := onTick w @ [(nextHandle w, l)], nextHandle := Suc (nextHandle w)\<rparr>)"

definition removeOnTick :: "nat \<Rightarrow> 'r world \<Rightarrow> 'r world" where
  "removeOnTick h w = w\<lparr>onTick := AList.delete h (onTick w)\<rparr>"

definition addChanged :: "changed_listener \<Rightarrow> 'r world \<Rightarrow> nat \<times> 'r world" where
  "addChanged l w = (nextHandle w,
     w\<lparr>trackedEntityChanged := trackedEntityChanged w @ [(nextHandle w, l)],
       nextHandle := Suc (nextHandle w)\<rparr>)"

definition removeChanged :: "nat \<Rightarrow> 'r world \<Rightarrow> 'r world" where
  "removeChanged h w = w\<lparr>trackedEntityChanged := AList.delete h (trackedEntityChanged w)\<rparr>"

text \<open>A listener writes back its captured variables; nothing happens if it is gone.\<close>

definition setClosure :: "nat \<Rightarrow> 'r listener \<Rightarrow> 'r world \<Rightarrow> 'r world" where
  "setClosure h l w = w\<lparr>onTick := map (\<lambda>(k, v). if k = h then (k, l) else (k, v)) (onTick w)\<rparr>"

section \<open>The batched primitive: recreateGeometryInstancePrimitive\<close>

text \<open>
  The readiness poll (the listener \<^verbatim>\<open>readyCallback\<close> removes). \<open>readyCallback\<close> is its own
  handle.
\<close>

definition readyListener ::
  "'r frame \<Rightarrow> nat \<Rightarrow> 'r primitive_obj \<Rightarrow> int \<Rightarrow> 'r world \<Rightarrow> 'r world" where
  "readyListener f readyCallback prim lastState w =
     (if \<not> candidateReady f then
        (let state = candidateState f in
         if state \<noteq> lastState
         then (setClosure readyCallback (ReadyPoll prim state) w)
                \<lparr>primitiveUpdates := Suc (primitiveUpdates w)\<rparr>
         else w)
      else
        (let icrfToFixed = computeIcrfToFixedMatrix f (currentTime w);
             prim1 = (case icrfToFixed of
                        Some m \<Rightarrow> prim\<lparr>modelMatrix := FromRotationTranslation m\<rparr>
                      | None \<Rightarrow> prim);
             w1 = (case primitive w of
                     Some old \<Rightarrow>
                       w\<lparr>primitives := removeAll (BatchedPrimitive (objId old)) (primitives w)\<rparr>
                   | None \<Rightarrow> w);
             w2 = w1\<lparr>primitives := primitives w1 @ [BatchedPrimitive (objId prim1)]\<rparr>;
             w3 = w2\<lparr>primitive := Some prim1\<rparr>;
             w4 = w3\<lparr>renderRequests := Suc (renderRequests w3)\<rparr>;
             w5 = w4\<lparr>primitivePendingCreation := False\<rparr>
         in removeOnTick readyCallback w5))"

text \<open>
  The callback handed to \<^verbatim>\<open>createPeriodicTickCallback\<close>; \<open>removeCallback\<close> is the handle
  of the periodic listener that calls it.
\<close>

definition rebuildCallback :: "nat \<Rightarrow> julian \<Rightarrow> 'r world \<Rightarrow> 'r world" where
  "rebuildCallback removeCallback now w =
     (if primitivePendingCreation w then w
      else
        (let w1 = w\<lparr>primitivePendingUpdate := False\<rparr> in
         if length (arrays w1 (geometries w1)) = 0 then
           (let w2 = (case primitive w1 of
                        Some old \<Rightarrow>
                          w1\<lparr>primitives :=
                               removeAll (BatchedPrimitive (objId old)) (primitives w1)\<rparr>
                      | None \<Rightarrow> w1);
                w3 = w2\<lparr>primitive := None\<rparr>
            in w3\<lparr>renderRequests := Suc (renderRequests w3)\<rparr>)
         else
           (let w2 = w1\<lparr>primitivePendingCreation := True\<rparr>;
                prim = \<lparr>objId = nextObject w2, geometryInstances = geometries w2,
                         modelMatrix = IDENTITY\<rparr>;
                w3 = w2\<lparr>nextObject := Suc (nextObject w2)\<rparr>;
                (readyCallback, w4) = addOnTick (ReadyPoll prim (- 1)) w3
            in removeOnTick removeCallback w4)))"

definition recreateGeometryInstancePrimitive :: "'r world \<Rightarrow> 'r world" where
  "recreateGeometryInstancePrimitive w =
     (if primitivePendingUpdate w then w
      else
        (let w1 = w\<lparr>primitivePendingUpdate := True\<rparr>;
             (removeCallback, w2) = addOnTick (PeriodicTick 30 0) w1
         in w2))"

section \<open>Tracking: setTrackedOnTickCallback\<close>

text \<open>Returns the handle of the per-tick listener, which names the registration.\<close>

definition setTrackedOnTickCallback :: "'r world \<Rightarrow> nat \<times> 'r world" where
  "setTrackedOnTickCallback w =
     (let (onTickEventRemovalCallback, w1) = addOnTick TrackedTick w;
          (onTrackedEntityChangedRemovalCallback, w2) =
             addChanged (Untrack onTickEventRemovalCallback) w1
      in (onTickEventRemovalCallback, w2))"

definition callChanged :: "nat \<Rightarrow> changed_listener \<Rightarrow> 'r world \<Rightarrow> 'r world" where
  "callChanged h l w = (case l of Untrack onTickEventRemovalCallback \<Rightarrow>
     (let w1 = removeOnTick onTickEventRemovalCallback w;
          w2 = removeChanged h w1
      in w2\<lparr>calls := calls w2 @ [OnUntrackCall onTickEventRemovalCallback]\<rparr>))"

section \<open>Frames\<close>

definition callListener :: "'r frame \<Rightarrow> nat \<Rightarrow> 'r listener \<Rightarrow> 'r world \<Rightarrow> 'r world" where
  "callListener f h l w = (case l of
       PeriodicTick refreshRate ticks \<Rightarrow>
         (let (ticks1, w1) =
                periodicTickListener refreshRate (rebuildCallback h) (currentTime w) (ticks, w)
          in setClosure h (PeriodicTick refreshRate ticks1) w1)
     | ReadyPoll prim lastState \<Rightarrow> readyListener f h prim lastState w
     | TrackedTick \<Rightarrow> w\<lparr>calls := calls w @ [OnTickCall h (currentTime w)]\<rparr>)"

fun raiseOnTick :: "'r frame \<Rightarrow> nat list \<Rightarrow> 'r world \<Rightarrow> 'r world" where
  "raiseOnTick f [] w = w"
| "raiseOnTick f (h # hs) w =
     raiseOnTick f hs (case map_of (onTick w) h of
                         None \<Rightarrow> w
                       | Some l \<Rightarrow> callListener f h l w)"

fun raiseChanged :: "nat list \<Rightarrow> 'r world \<Rightarrow> 'r world" where
  "raiseChanged [] w = w"
| "raiseChanged (h # hs) w =
     raiseChanged hs (case map_of (trackedEntityChanged w) h of
                        None \<Rightarrow> w
                      | Some l \<Rightarrow> callChanged h l w)"

text \<open>One frame: the clock advances to the frame's time and raises \<^verbatim>\<open>onTick\<close>.\<close>

definition tick :: "'r frame \<Rightarrow> 'r world \<Rightarrow> 'r world" where
  "tick f w = (let w1 = w\<lparr>currentTime := frameTime f\<rparr>
               in raiseOnTick f (map fst (onTick w1)) w1)"

text \<open>The viewer's tracked entity changes.\<close>

definition trackedEntityChange :: "'r world \<Rightarrow> 'r world" where
  "trackedEntityChange w = raiseChanged (map fst (trackedEntityChanged w)) w"

section \<open>CesiumComponentCollection\<close>

text \<open>
  \<open>components\<close> is the object \<^verbatim>\<open>#components\<close>: its own keys in insertion order, each with
  its value.
\<close>

record collection =
  components :: "(string \<times> component) list"
  lazy :: bool
  defaultEntity :: "component option"

definition componentNames :: "collection \<Rightarrow> string list" where
  "componentNames c = map fst (components c)"

definition created :: "collection \<Rightarrow> bool" where
  "created c = (length (componentNames c) > 0)"

text \<open>
  \<^verbatim>\<open>name in this.components\<close> followed by \<^verbatim>\<open>this.components[name]\<close>: an own key is found
  first, then the names inherited from \<^verbatim>\<open>Object.prototype\<close>; \<open>None\<close> when \<^verbatim>\<open>in\<close> is
  false.
\<close>

definition property :: "collection \<Rightarrow> string \<Rightarrow> component option" where
  "property c name = (case map_of (components c) name of
       Some component \<Rightarrow> Some component
     | None \<Rightarrow> if name \<in> set objectPrototypeNames then Some (Inherited name) else None)"

text \<open>
  \<^verbatim>\<open>geometries.push(component)\<close> changes the array in place, so every holder of its
  address sees the new element.
\<close>

definition enableComponent :: "string \<Rightarrow> collection \<times> 'r world \<Rightarrow> collection \<times> 'r world" where
  "enableComponent name = (\<lambda>(c, w).
     case property c name of
       None \<Rightarrow> (c, w)
     | Some component \<Rightarrow>
         (let w1 = (case component of
                      Entity e \<Rightarrow>
                        if e \<notin> set (entities w) then w\<lparr>entities := entities w @ [e]\<rparr> else w
                    | Primitive p \<Rightarrow>
                        if StoredPrimitive p \<notin> set (primitives w)
                        then w\<lparr>primitives := primitives w @ [StoredPrimitive p]\<rparr> else w
                    | GeometryInstance g \<Rightarrow>
                        recreateGeometryInstancePrimitive
                          (w\<lparr>arrays := (arrays w)(geometries w := arrays w (geometries w) @ [g])\<rparr>)
                    | Other x \<Rightarrow> w
                    | Inherited n \<Rightarrow> w);
              c1 = (if defaultEntity c = None then c\<lparr>defaultEntity := Some component\<rparr> else c)
          in (c1, w1)))"

text \<open>
  What \<^verbatim>\<open>disableComponent\<close> does to the viewer for the component it found. The filter
  builds a new array and the static field is set to it; the old array stays as it is.
\<close>

definition withdraw :: "component \<Rightarrow> 'r world \<Rightarrow> 'r world" where
  "withdraw component w = (case component of
       Entity e \<Rightarrow> w\<lparr>entities := removeAll e (entities w)\<rparr>
     | Primitive p \<Rightarrow> w\<lparr>primitives := removeAll (StoredPrimitive p) (primitives w)\<rparr>
     | GeometryInstance g \<Rightarrow>
         recreateGeometryInstancePrimitive
           (w\<lparr>arrays := (arrays w)(nextArray w :=
                        filter (\<lambda>geometry. geometry \<noteq> g) (arrays w (geometries w))),
              geometries := nextArray w,
              nextArray := Suc (nextArray w)\<rparr>)
     | Other x \<Rightarrow> w
     | Inherited n \<Rightarrow> w)"

definition disableComponent :: "string \<Rightarrow> collection \<times> 'r world \<Rightarrow> collection \<times> 'r world" where
  "disableComponent name = (\<lambda>(c, w).
     case property c name of
       None \<Rightarrow> (c, w)
     | Some component \<Rightarrow>
         (let w1 = withdraw component w;
              c1 = (if lazy c then c\<lparr>components := AList.delete name (components c)\<rparr> else c)
          in (c1, w1)))"

definition show_components :: "string list \<Rightarrow> collection \<times> 'r world \<Rightarrow> collection \<times> 'r world" where
  "show_components names cw = fold enableComponent names cw"

definition hide :: "string list \<Rightarrow> collection \<times> 'r world \<Rightarrow> collection \<times> 'r world" where
  "hide names cw = fold disableComponent names cw"

text \<open>The calls without argument: the default is \<^verbatim>\<open>this.componentNames\<close>, read at the call.\<close>

definition show_default :: "collection \<times> 'r world \<Rightarrow> collection \<times> 'r world" where
  "show_default cw = show_components (componentNames (fst cw)) cw"

definition hide_default :: "collection \<times> 'r world \<Rightarrow> collection \<times> 'r world" where
  "hide_default cw = hide (componentNames (fst cw)) cw"

definition visibleComponents :: "collection \<Rightarrow> 'r world \<Rightarrow> component list" where
  "visibleComponents c w = filter (\<lambda>component.
       case component of
         Entity e \<Rightarrow> e \<in> set (entities w)
       | Primitive p \<Rightarrow> StoredPrimitive p \<in> set (primitives w)
       | _ \<Rightarrow> False) (map snd (components c))"

section \<open>Sessions\<close>

text \<open>
  A session is a sequence of steps on one collection and the viewer: calls of the
  collection's methods, frames, changes of the tracked entity, and registrations of
  tracked-tick callbacks.
\<close>

datatype 'r step =
    Enable string
  | Disable string
  | Show "string list"
  | Hide "string list"
  | ShowAll
  | HideAll
  | Frame "'r frame"
  | TrackedEntityChanged
  | SetTrackedOnTickCallback

definition step :: "'r step \<Rightarrow> collection \<times> 'r world \<Rightarrow> collection \<times> 'r world" where
  "step e cw = (case e of
       Enable n \<Rightarrow> enableComponent n cw
     | Disable n \<Rightarrow> disableComponent n cw
     | Show ns \<Rightarrow> show_components ns cw
     | Hide ns \<Rightarrow> hide ns cw
     | ShowAll \<Rightarrow> show_default cw
     | HideAll \<Rightarrow> hide_default cw
     | Frame f \<Rightarrow> (fst cw, tick f (snd cw))
     | TrackedEntityChanged \<Rightarrow> (fst cw, trackedEntityChange (snd cw))
     | SetTrackedOnTickCallback \<Rightarrow> (fst cw, snd (setTrackedOnTickCallback (snd cw))))"

definition run :: "'r step list \<Rightarrow> collection \<times> 'r world \<Rightarrow> collection \<times> 'r world" where
  "run es cw = fold step es cw"

section \<open>Vocabulary of the properties\<close>

text \<open>The contribution list: the content of the array the static field refers to.\<close>

definition contribution :: "'r world \<Rightarrow> nat list" where
  "contribution w = arrays w (geometries w)"

text \<open>
  What it is for a component to have been installed by a step from \<open>w\<close> to \<open>w'\<close>: an
  entity is among the viewer's entities and a primitive among the scene's primitives; a
  geometry instance has been appended to the contribution list and a rebuild is
  requested; for any other value the viewer is as it was.
\<close>

definition installed :: "component \<Rightarrow> 'r world \<Rightarrow> 'r world \<Rightarrow> bool" where
  "installed component w w' = (case component of
       Entity e \<Rightarrow> e \<in> set (entities w')
     | Primitive p \<Rightarrow> StoredPrimitive p \<in> set (primitives w')
     | GeometryInstance g \<Rightarrow>
         contribution w' = contribution w @ [g] \<and> primitivePendingUpdate w'
     | Other x \<Rightarrow> w' = w
     | Inherited n \<Rightarrow> w' = w)"

text \<open>Whether the scene keeps a primitive once the stored components \<open>xs\<close> are withdrawn.\<close>

definition kept :: "component list \<Rightarrow> scene_primitive \<Rightarrow> bool" where
  "kept xs r = (case r of
       StoredPrimitive p \<Rightarrow> Primitive p \<notin> set xs
     | BatchedPrimitive b \<Rightarrow> True)"

text \<open>Concrete objects for the examples: a lazy collection with three geometry components,
  a lazy collection with an entity, a primitive and a geometry component, a collection
  with no component, and a frame on which the candidate is ready and the rotation at
  time \<open>t\<close> is named by \<open>t\<close> itself.\<close>

definition station :: collection where
  "station = \<lparr>components = [(''Groundstation'', Entity 5), (''Model'', Primitive 6),
       (''Orbit'', GeometryInstance 1)], lazy = True, defaultEntity = None\<rparr>"

definition satellite :: collection where
  "satellite = \<lparr>components = [(''Orbit'', GeometryInstance 1), (''Orbit track'', GeometryInstance 2),
       (''Ground track'', GeometryInstance 3)], lazy = True, defaultEntity = None\<rparr>"

definition empty_collection :: collection where
  "empty_collection = \<lparr>components = [], lazy = True, defaultEntity = None\<rparr>"

definition ready_frame :: "julian \<Rightarrow> julian frame" where
  "ready_frame t = \<lparr>frameTime = t, candidateReady = True, candidateState = 0,
     computeIcrfToFixedMatrix = (\<lambda>t. Some t)\<rparr>"

text \<open>A session that ends with the batch of the orbit installed in the scene.\<close>

definition orbit_installed :: "collection \<times> julian world" where
  "orbit_installed =
     run ([Enable ''Orbit''] @ replicate 31 (Frame (ready_frame 0)) @ [Frame (ready_frame 7)])
       (satellite, initial_world)"

text \<open>The station with all its components shown.\<close>

definition station_shown :: "collection \<times> julian world" where
  "station_shown = show_default (station, initial_world)"

text \<open>
  Reading the record of user callbacks: the handle a call belongs to, the times at which
  the per-tick callback of registration \<open>r\<close> ran, and how often its untrack callback
  ran.
\<close>

fun call_handle :: "call \<Rightarrow> nat" where
  "call_handle (OnTickCall h t) = h"
| "call_handle (OnUntrackCall h) = h"

fun onTickCalls :: "nat \<Rightarrow> call list \<Rightarrow> julian list" where
  "onTickCalls r [] = []"
| "onTickCalls r (OnTickCall h t # cs) = (if h = r then t # onTickCalls r cs else onTickCalls r cs)"
| "onTickCalls r (OnUntrackCall h # cs) = onTickCalls r cs"

definition onUntrackCalls :: "nat \<Rightarrow> call list \<Rightarrow> nat" where
  "onUntrackCalls r cs = count_list cs (OnUntrackCall r)"

fun untrack_target :: "changed_listener \<Rightarrow> nat" where
  "untrack_target (Untrack j) = j"

definition untrack_call :: "nat \<times> changed_listener \<Rightarrow> call" where
  "untrack_call e = (case snd e of Untrack j \<Rightarrow> OnUntrackCall j)"

text \<open>
  Handles are handed out in increasing order: every handle in use, and every handle a
  recorded call names, is below the next one, and no two change listeners share one.
\<close>

definition handles_fresh :: "'r world \<Rightarrow> bool" where
  "handles_fresh w \<longleftrightarrow>
     (\<forall>h \<in> fst ` set (onTick w). h < nextHandle w) \<and>
     (\<forall>e \<in> set (trackedEntityChanged w).
         fst e < nextHandle w \<and> untrack_target (snd e) < nextHandle w) \<and>
     distinct (map fst (trackedEntityChanged w)) \<and>
     (\<forall>c \<in> set (calls w). call_handle c < nextHandle w)"

text \<open>
  The two stages of a registration \<open>r\<close>. While \<open>tracking\<close>, its change listener is
  registered (once, under the handle after \<open>r\<close>) and its untrack callback has not run.
  Once \<open>cancelled\<close>, neither of its listeners is registered, and its callbacks have run
  at the times \<open>C\<close> and \<open>U\<close> times.
\<close>

definition tracking :: "nat \<Rightarrow> 'r world \<Rightarrow> bool" where
  "tracking r w \<longleftrightarrow> handles_fresh w \<and>
     (Suc r, Untrack r) \<in> set (trackedEntityChanged w) \<and>
     (\<forall>k. (k, Untrack r) \<in> set (trackedEntityChanged w) \<longrightarrow> k = Suc r) \<and>
     onUntrackCalls r (calls w) = 0"

definition cancelled :: "nat \<Rightarrow> julian list \<Rightarrow> nat \<Rightarrow> 'r world \<Rightarrow> bool" where
  "cancelled r C U w \<longleftrightarrow> handles_fresh w \<and> r < nextHandle w \<and>
     r \<notin> fst ` set (onTick w) \<and> Untrack r \<notin> snd ` set (trackedEntityChanged w) \<and>
     onTickCalls r (calls w) = C \<and> onUntrackCalls r (calls w) = U"

text \<open>
  A change of the world that runs no user callback and leaves the change listeners
  alone: tick listeners may go, and new ones get new handles.
\<close>

definition quiet :: "'r world \<Rightarrow> 'r world \<Rightarrow> bool" where
  "quiet w w' \<longleftrightarrow> nextHandle w \<le> nextHandle w' \<and>
     fst ` set (onTick w') \<subseteq> fst ` set (onTick w) \<union> {nextHandle w ..< nextHandle w'} \<and>
     trackedEntityChanged w' = trackedEntityChanged w \<and> calls w' = calls w"

text \<open>During the frame at time \<open>t\<close>, the listener \<open>l\<close> under handle \<open>h\<close> still waits for
  its turn.\<close>

definition poll_pending :: "julian \<Rightarrow> nat \<Rightarrow> 'r listener \<Rightarrow> 'r world \<Rightarrow> bool" where
  "poll_pending t h l w \<longleftrightarrow> currentTime w = t \<and> map_of (onTick w) h = Some l"

text \<open>
  Sessions continuing \<open>orbit_installed\<close>. The orbit is hidden and 31 frames pass; the
  orbit track is then shown and 31 more frames pass, which starts the creation of a
  candidate; during that creation the ground track is shown.
\<close>

definition orbit_hidden :: "collection \<times> julian world" where
  "orbit_hidden = run ([Disable ''Orbit''] @ replicate 31 (Frame (ready_frame 8))) orbit_installed"

definition second_creation :: "collection \<times> julian world" where
  "second_creation =
     run ([Enable ''Orbit track''] @ replicate 31 (Frame (ready_frame 9))) orbit_hidden"

definition mutated_while_creating :: "collection \<times> julian world" where
  "mutated_while_creating = step (Enable ''Ground track'') second_creation"

text \<open>
  A frame on which the candidate is ready while the frame-transform provider returns
  \<^verbatim>\<open>undefined\<close>, and the session in which the orbit's candidate becomes ready on it.
\<close>

definition undefined_provider_frame :: "julian \<Rightarrow> julian frame" where
  "undefined_provider_frame t = \<lparr>frameTime = t, candidateReady = True, candidateState = 0,
     computeIcrfToFixedMatrix = (\<lambda>t. None)\<rparr>"

definition installed_untransformed :: "collection \<times> julian world" where
  "installed_untransformed =
     run ([Enable ''Orbit''] @ replicate 31 (Frame (ready_frame 0)) @
          [Frame (undefined_provider_frame 7)])
       (satellite, initial_world)"

section \<open>Scheduler properties\<close>

lemma tickRun_snoc:
  "tickRun n (ts @ [t]) st = periodicTickListener n record_call t (tickRun n ts st)"
  by (simp add: tickRun_def)

text \<open>
  The tick callback counts \<open>refreshRate\<close> ticks and fires on the one after them: over any
  sequence of ticks it is invoked on the ticks whose number (from 1) is a multiple of
  \<open>refreshRate + 1\<close>, with the time of that tick, and the counter is the number of ticks
  since the last firing.
\<close>

lemma tickRun_period:
  "tickRun n ts (0, []) =
     (length ts mod Suc n, map (\<lambda>i. ts ! i) (filter (\<lambda>i. Suc i mod Suc n = 0) [0..<length ts]))"
proof (induction ts rule: rev_induct)
  case Nil
  show ?case by (simp add: tickRun_def)
next
  case (snoc t ts)
  have m: "length ts mod Suc n < n \<Longrightarrow> Suc (length ts) mod Suc n = Suc (length ts mod Suc n)"
    by (simp add: mod_Suc)
  have z: "\<not> length ts mod Suc n < n \<Longrightarrow> Suc (length ts) mod Suc n = 0"
  proof -
    assume a: "\<not> length ts mod Suc n < n"
    have "length ts mod Suc n < Suc n" by simp
    then have "length ts mod Suc n = n" using a by linarith
    then show ?thesis by (simp add: mod_Suc)
  qed
  have nth: "map (\<lambda>i. (ts @ [t]) ! i) (filter (\<lambda>i. Suc i mod Suc n = 0) [0..<length ts])
     = map (\<lambda>i. ts ! i) (filter (\<lambda>i. Suc i mod Suc n = 0) [0..<length ts])"
    by (rule map_cong) (auto simp: nth_append)
  show ?case
    using m z nth by (simp add: tickRun_snoc snoc.IH periodicTickListener_def record_call_def)
qed

text \<open>
  C5. The callback registered by \<^verbatim>\<open>createPeriodicTickCallback(viewer, n, callback)\<close>
  is said to run once every \<open>n\<close> ticks. With \<open>n = 2\<close> and six ticks at times 1 to 6 the
  code invokes it on the third and the sixth tick only, each time with that tick's time
  and leaving the counter at 0: the period is \<open>n + 1\<close>.
\<close>

theorem periodicTick_period_off_by_one:
  "tickRun 2 [1, 2, 3, 4, 5, 6] (0, []) = (0, [3, 6])"
  by (simp add: tickRun_def periodicTickListener_def record_call_def)

lemma timeRun_quiet:
  "\<forall>u \<in> set us. \<bar>sd u t\<bar> < s \<Longrightarrow> timeRun sd s us (t, cs) = (t, cs)"
  by (induction us) (simp_all add: timeRun_def periodicTimeListener_def Let_def)

text \<open>
  C7. On a tick at time \<open>t\<close> the callback registered by
  \<^verbatim>\<open>createPeriodicTimeCallback(viewer, s, callback)\<close> is invoked, once and with \<open>t\<close>,
  exactly when the absolute value of the difference that the engine computes between
  \<open>t\<close> and the last-fired time is at least \<open>s\<close>, and the reference time then becomes
  \<open>t\<close>; otherwise nothing changes. So a tick that jumps by \<open>s\<close> or more gives one
  invocation, and the ticks after it whose computed difference to it stays below \<open>s\<close>
  give none. This holds whatever the engine's difference function \<open>sd\<close> returns, its
  rounding included.
\<close>

theorem periodicTime_fires_once:
  "periodicTimeListener sd s record_call t (t0, cs) =
     (if s \<le> \<bar>sd t t0\<bar> then (t, cs @ [t]) else (t0, cs)) \<and>
   (s \<le> \<bar>sd t t0\<bar> \<and> (\<forall>u \<in> set us. \<bar>sd u t\<bar> < s) \<longrightarrow>
      timeRun sd s (t # us) (t0, cs) = (t, cs @ [t]))"
proof
  show "periodicTimeListener sd s record_call t (t0, cs) =
     (if s \<le> \<bar>sd t t0\<bar> then (t, cs @ [t]) else (t0, cs))"
    by (simp add: periodicTimeListener_def record_call_def Let_def)
  show "s \<le> \<bar>sd t t0\<bar> \<and> (\<forall>u \<in> set us. \<bar>sd u t\<bar> < s) \<longrightarrow>
      timeRun sd s (t # us) (t0, cs) = (t, cs @ [t])"
  proof
    assume a: "s \<le> \<bar>sd t t0\<bar> \<and> (\<forall>u \<in> set us. \<bar>sd u t\<bar> < s)"
    then have "timeRun sd s (t # us) (t0, cs) = timeRun sd s us (t, cs @ [t])"
      by (simp add: timeRun_def periodicTimeListener_def record_call_def Let_def)
    then show "timeRun sd s (t # us) (t0, cs) = (t, cs @ [t])"
      using a timeRun_quiet [of us sd t s] by simp
  qed
qed

text \<open>
  With the exact difference of two numbers as the engine's function, for a jump forward,
  a small step backward and a jump backward; and with a difference rounded to whole
  seconds, where a tick three quarters of a second after the reference fires at the
  threshold of one second.
\<close>

theorem periodicTime_fires_once_witness:
  "periodicTimeListener (\<lambda>a b. a - b) 10 record_call 100 (0, []) = (100 :: real, [100]) \<and>
   periodicTimeListener (\<lambda>a b. a - b) 10 record_call (- 3) (0, []) = (0 :: real, []) \<and>
   periodicTimeListener (\<lambda>a b. a - b) 10 record_call (- 30) (0, []) = (- 30 :: real, [- 30]) \<and>
   timeRun (\<lambda>a b. a - b) 10 [100, 101, 105, 99] (0, []) = (100 :: real, [100]) \<and>
   periodicTimeListener (\<lambda>a b. real_of_int (round (a - b))) 1 record_call 1 (1 / 4, [])
     = (1 :: real, [1])"
proof -
  have h: "(10 :: real) \<le> \<bar>100 - 0\<bar> \<and> (\<forall>u \<in> set [101, 105, 99]. \<bar>u - 100\<bar> < (10 :: real))"
    by simp
  have r: "round (1 - 1 / 4 :: real) = 1"
    by (simp add: round_def)
  show ?thesis
    using h r
      periodicTime_fires_once [of "\<lambda>a b. a - b" 10 "100 :: real" 0 "[]" "[101, 105, 99]"]
      periodicTime_fires_once [of "\<lambda>a b. a - b" 10 "- 3 :: real" 0 "[]" "[]"]
      periodicTime_fires_once [of "\<lambda>a b. a - b" 10 "- 30 :: real" 0 "[]" "[]"]
      periodicTime_fires_once [of "\<lambda>a b. real_of_int (round (a - b))" 1 "1 :: real" "1 / 4"
        "[]" "[]"]
    by simp
qed

section \<open>Collection properties\<close>

lemma recreate_fields [simp]:
  "arrays (recreateGeometryInstancePrimitive w) = arrays w"
  "geometries (recreateGeometryInstancePrimitive w) = geometries w"
  "nextArray (recreateGeometryInstancePrimitive w) = nextArray w"
  "entities (recreateGeometryInstancePrimitive w) = entities w"
  "primitives (recreateGeometryInstancePrimitive w) = primitives w"
  "primitivePendingUpdate (recreateGeometryInstancePrimitive w)"
  by (simp_all add: recreateGeometryInstancePrimitive_def addOnTick_def)

lemma property_own: "map_of (components c) n = Some x \<Longrightarrow> property c n = Some x"
  by (simp add: property_def)

lemma enableComponent_components [simp]:
  "components (fst (enableComponent n cw)) = components (fst cw)"
  by (cases cw) (simp add: enableComponent_def Let_def split: option.splits)

lemma show_components_components:
  "components (fst (show_components ns cw)) = components (fst cw)"
  unfolding show_components_def by (induction ns arbitrary: cw) simp_all

lemma enableComponent_absent:
  "property c n = None \<Longrightarrow> enableComponent n (c, w) = (c, w)"
  by (simp add: enableComponent_def)

text \<open>
  A name that the component object only inherits passes the \<^verbatim>\<open>in\<close> test: nothing is
  installed, and the inherited value becomes the default entity if there is none yet.
\<close>

lemma enableComponent_inherited:
  "map_of (components c) n = None \<Longrightarrow> n \<in> set objectPrototypeNames \<Longrightarrow>
   enableComponent n (c, w) =
     (if defaultEntity c = None then c\<lparr>defaultEntity := Some (Inherited n)\<rparr> else c, w)"
  by (simp add: enableComponent_def property_def Let_def)

lemma enableComponent_installs:
  "map_of (components c) n = Some x \<Longrightarrow> installed x w (snd (enableComponent n (c, w)))"
  by (cases x)
     (simp_all add: enableComponent_def property_own installed_def contribution_def Let_def)

text \<open>
  C4, as the code has it. \<^verbatim>\<open>show\<close> constructs nothing: a name that is not a property
  of the component object is skipped, leaving the collection and the viewer as they
  were; a stored component is installed; and whatever the names, the collection stores
  after \<^verbatim>\<open>show\<close> exactly the components it stored before.
\<close>

theorem show_installs_only_stored:
  "(property c n = None \<longrightarrow> show_components [n] (c, w) = (c, w)) \<and>
   (\<forall>x. map_of (components c) n = Some x \<longrightarrow>
        installed x w (snd (show_components [n] (c, w)))) \<and>
   components (fst (show_components ns (c, w))) = components c"
  by (simp add: show_components_def enableComponent_absent enableComponent_installs
        show_components_components [unfolded show_components_def])

theorem show_installs_only_stored_witness:
  "property empty_collection ''Orbit'' = None \<and>
   show_components [''Orbit''] (empty_collection, initial_world :: julian world)
     = (empty_collection, initial_world) \<and>
   map_of (components satellite) ''Orbit'' = Some (GeometryInstance 1) \<and>
   installed (GeometryInstance 1) (initial_world :: julian world)
     (snd (show_components [''Orbit''] (satellite, initial_world))) \<and>
   map_of (components station) ''Groundstation'' = Some (Entity 5) \<and>
   installed (Entity 5) (initial_world :: julian world)
     (snd (show_components [''Groundstation''] (station, initial_world))) \<and>
   components (fst (show_components [''Orbit'', ''Label'', ''toString'']
     (satellite, initial_world :: julian world))) = components satellite"
proof -
  have a: "property empty_collection ''Orbit'' = None"
    by (simp add: empty_collection_def property_def objectPrototypeNames_def)
  have b: "map_of (components satellite) ''Orbit'' = Some (GeometryInstance 1)"
    by (simp add: satellite_def)
  have c: "map_of (components station) ''Groundstation'' = Some (Entity 5)"
    by (simp add: station_def)
  show ?thesis
    using a b c
      show_installs_only_stored [of empty_collection "''Orbit''" "initial_world :: julian world" "[]"]
      show_installs_only_stored [of satellite "''Orbit''" "initial_world :: julian world"
        "[''Orbit'', ''Label'', ''toString'']"]
      show_installs_only_stored [of station "''Groundstation''" "initial_world :: julian world"
        "[]"]
    by simp
qed

text \<open>
  C4, as the claim states it, fails: after \<^verbatim>\<open>show(["Orbit"])\<close> on a collection that
  stores no component, the component object has no property of that name, own or
  inherited.
\<close>

theorem show_unknown_counterexample:
  "property (fst (show_components [''Orbit'']
      (empty_collection, initial_world :: julian world))) ''Orbit'' = None \<and>
   map_of (components (fst (show_components [''Orbit'']
      (empty_collection, initial_world :: julian world)))) ''Orbit'' = None"
  by (simp add: show_components_def enableComponent_def empty_collection_def property_def
        objectPrototypeNames_def)

text \<open>
  Enabling a stored geometry component appends it to the contribution list whether or
  not the list already holds it.
\<close>

lemma enable_geometry_pushes:
  "map_of (components c) n = Some (GeometryInstance g) \<Longrightarrow>
   contribution (snd (enableComponent n (c, w))) = contribution w @ [g]"
  by (simp add: enableComponent_def property_own contribution_def Let_def)

text \<open>
  C6. Enabling a geometry component that is already contributed should leave the
  contribution set as it is. The code appends again: after \<^verbatim>\<open>show(["Orbit"])\<close> twice on
  the satellite the contribution list holds the orbit's geometry twice.
\<close>

theorem show_twice_contributes_twice:
  "contribution (snd (show_components [''Orbit''] (show_components [''Orbit'']
      (satellite, initial_world :: julian world)))) = [1, 1]"
  by code_simp

lemma hide_lazy_aux:
  "lazy c \<Longrightarrow> distinct (map fst (components c)) \<Longrightarrow>
   hide (map fst (components c)) (c, w) =
     (c\<lparr>components := []\<rparr>, fold withdraw (map snd (components c)) w)"
proof (induction "components c" arbitrary: c w)
  case Nil
  then show ?case by (simp add: hide_def)
next
  case (Cons kv kvs)
  obtain k v where kv: "kv = (k, v)" by (cases kv)
  let ?c1 = "c\<lparr>components := kvs\<rparr>"
  have comps: "components c = (k, v) # kvs" using Cons.hyps(2) kv by simp
  have notin: "k \<notin> fst ` set kvs" using Cons.prems(2) comps by simp
  have del: "AList.delete k kvs = kvs" using notin by (simp add: delete_id)
  have found: "property c k = Some v" using comps by (simp add: property_def)
  have one: "disableComponent k (c, w) = (?c1, withdraw v w)"
    using Cons.prems(1) comps del found by (simp add: disableComponent_def Let_def)
  have "hide (map fst (components ?c1)) (?c1, withdraw v w) =
          (?c1\<lparr>components := []\<rparr>, fold withdraw (map snd (components ?c1)) (withdraw v w))"
    using Cons.prems comps by (intro Cons.hyps(1)) simp_all
  then show ?case using one comps by (simp add: hide_def)
qed

text \<open>What withdrawing the components \<open>xs\<close> one after the other leaves in the viewer.\<close>

lemma withdraw_entities:
  "entities (withdraw x w) = filter (\<lambda>e. Entity e \<noteq> x) (entities w)"
  by (cases x) (simp_all add: withdraw_def removeAll_filter_not_eq eq_commute)

lemma withdraw_primitives:
  "primitives (withdraw x w) = filter (kept [x]) (primitives w)"
proof (cases x)
  case (Primitive p)
  have "(\<lambda>r. StoredPrimitive p \<noteq> r) = kept [Primitive p]"
    by (rule ext) (simp add: kept_def eq_commute split: scene_primitive.splits)
  then show ?thesis
    using Primitive by (simp add: withdraw_def removeAll_filter_not_eq)
qed (simp_all add: withdraw_def kept_def split: scene_primitive.splits cong: filter_cong)

lemma withdraw_contribution:
  "contribution (withdraw x w) = filter (\<lambda>g. GeometryInstance g \<noteq> x) (contribution w)"
  by (cases x) (simp_all add: withdraw_def contribution_def eq_commute)

lemma withdraw_pending:
  "primitivePendingUpdate (withdraw x w) \<longleftrightarrow>
     primitivePendingUpdate w \<or> (\<exists>g. x = GeometryInstance g)"
  by (cases x) (simp_all add: withdraw_def)

lemma fold_withdraw_entities:
  "entities (fold withdraw xs w) = filter (\<lambda>e. Entity e \<notin> set xs) (entities w)"
proof (induction xs arbitrary: w)
  case Nil
  show ?case by simp
next
  case (Cons x xs)
  have "filter (\<lambda>e. Entity e \<notin> set xs) (filter (\<lambda>e. Entity e \<noteq> x) (entities w)) =
        filter (\<lambda>e. Entity e \<notin> set (x # xs)) (entities w)"
    by (simp add: conj_commute)
  then show ?case by (simp add: Cons.IH withdraw_entities)
qed

lemma fold_withdraw_primitives:
  "primitives (fold withdraw xs w) = filter (kept xs) (primitives w)"
proof (induction xs arbitrary: w)
  case Nil
  have "kept [] = (\<lambda>r. True)"
    by (rule ext) (simp add: kept_def split: scene_primitive.splits)
  then show ?case by simp
next
  case (Cons x xs)
  have "(\<lambda>r. kept [x] r \<and> kept xs r) = kept (x # xs)"
    by (rule ext) (auto simp: kept_def split: scene_primitive.splits)
  then have "filter (kept xs) (filter (kept [x]) (primitives w)) =
             filter (kept (x # xs)) (primitives w)"
    by simp
  then show ?case by (simp add: Cons.IH withdraw_primitives)
qed

lemma fold_withdraw_contribution:
  "contribution (fold withdraw xs w) =
     filter (\<lambda>g. GeometryInstance g \<notin> set xs) (contribution w)"
proof (induction xs arbitrary: w)
  case Nil
  show ?case by simp
next
  case (Cons x xs)
  have "filter (\<lambda>g. GeometryInstance g \<notin> set xs)
          (filter (\<lambda>g. GeometryInstance g \<noteq> x) (contribution w)) =
        filter (\<lambda>g. GeometryInstance g \<notin> set (x # xs)) (contribution w)"
    by (simp add: conj_commute)
  then show ?case by (simp add: Cons.IH withdraw_contribution)
qed

lemma fold_withdraw_pending:
  "primitivePendingUpdate (fold withdraw xs w) \<longleftrightarrow>
     primitivePendingUpdate w \<or> (\<exists>g. GeometryInstance g \<in> set xs)"
  by (induction xs arbitrary: w) (auto simp: withdraw_pending)

text \<open>
  C9. \<^verbatim>\<open>hide()\<close> without argument on a lazy collection (its names distinct, as the keys
  of an object are) withdraws every stored component once, in the order of the names
  read at the call, and deletes every entry: the result is the collection with no
  component and the viewer after the withdrawal of each stored component in turn;
  \<^verbatim>\<open>componentNames\<close> is then empty and \<^verbatim>\<open>created\<close> is false. In the viewer, the entities
  left are those that were not stored, the scene's primitives left are those that were
  not stored, the contribution list has lost every stored geometry instance and nothing
  else, and a rebuild is requested if a geometry instance was stored.
\<close>

theorem hide_default_lazy:
  assumes "lazy c" and "distinct (componentNames c)"
  shows "hide_default (c, w) = (c\<lparr>components := []\<rparr>, fold withdraw (map snd (components c)) w)
       \<and> componentNames (fst (hide_default (c, w))) = []
       \<and> \<not> created (fst (hide_default (c, w)))
       \<and> entities (snd (hide_default (c, w))) =
           filter (\<lambda>e. Entity e \<notin> snd ` set (components c)) (entities w)
       \<and> primitives (snd (hide_default (c, w))) =
           filter (kept (map snd (components c))) (primitives w)
       \<and> contribution (snd (hide_default (c, w))) =
           filter (\<lambda>g. GeometryInstance g \<notin> snd ` set (components c)) (contribution w)
       \<and> ((\<exists>g. GeometryInstance g \<in> snd ` set (components c)) \<longrightarrow>
            primitivePendingUpdate (snd (hide_default (c, w))))"
proof -
  have h: "hide_default (c, w) =
      (c\<lparr>components := []\<rparr>, fold withdraw (map snd (components c)) w)"
    using hide_lazy_aux [of c w] assms by (simp add: hide_default_def componentNames_def)
  show ?thesis
    unfolding h
    by (simp add: componentNames_def created_def fold_withdraw_entities
          fold_withdraw_primitives fold_withdraw_contribution fold_withdraw_pending)
qed

theorem hide_default_lazy_witness:
  "lazy (fst station_shown) \<and> distinct (componentNames (fst station_shown)) \<and>
   entities (snd station_shown) = [5] \<and>
   primitives (snd station_shown) = [StoredPrimitive 6] \<and>
   contribution (snd station_shown) = [1] \<and>
   components (fst (hide_default station_shown)) = [] \<and>
   componentNames (fst (hide_default station_shown)) = [] \<and>
   \<not> created (fst (hide_default station_shown)) \<and>
   entities (snd (hide_default station_shown)) = [] \<and>
   primitives (snd (hide_default station_shown)) = [] \<and>
   contribution (snd (hide_default station_shown)) = [] \<and>
   primitivePendingUpdate (snd (hide_default station_shown))"
proof -
  have l: "lazy (fst station_shown)" by code_simp
  have d: "distinct (componentNames (fst station_shown))" by code_simp
  have cs: "components (fst station_shown) =
      [(''Groundstation'', Entity 5), (''Model'', Primitive 6), (''Orbit'', GeometryInstance 1)]"
    by code_simp
  have e: "entities (snd station_shown) = [5]" by code_simp
  have p: "primitives (snd station_shown) = [StoredPrimitive 6]" by code_simp
  have g: "contribution (snd station_shown) = [1]" by code_simp
  have k: "\<not> kept [Entity 5, Primitive 6, GeometryInstance 1] (StoredPrimitive 6)"
    by (simp add: kept_def)
  note rest = hide_default_lazy [OF l d, of "snd station_shown", THEN conjunct2,
      unfolded prod.collapse]
  show ?thesis
    using l d e p g k cs rest by (simp add: componentNames_def)
qed

lemma visibleComponents_iff:
  "x \<in> set (visibleComponents c w) \<longleftrightarrow>
     x \<in> snd ` set (components c) \<and>
     ((\<exists>e. x = Entity e \<and> e \<in> set (entities w)) \<or>
      (\<exists>p. x = Primitive p \<and> StoredPrimitive p \<in> set (primitives w)))"
  by (cases x) (auto simp: visibleComponents_def)

text \<open>
  C10. No geometry component is ever among \<^verbatim>\<open>visibleComponents\<close>, whatever the scene
  holds: the visible components are the stored entities that the viewer's entities
  contain and the stored primitives that the scene's primitives contain.
\<close>

theorem visibleComponents_no_geometry:
  "GeometryInstance g \<notin> set (visibleComponents c w) \<and>
   set (visibleComponents c w) =
     {x \<in> snd ` set (components c).
        (\<exists>e. x = Entity e \<and> e \<in> set (entities w)) \<or>
        (\<exists>p. x = Primitive p \<and> StoredPrimitive p \<in> set (primitives w))}"
proof
  show "GeometryInstance g \<notin> set (visibleComponents c w)"
    by (simp add: visibleComponents_iff)
  show "set (visibleComponents c w) =
     {x \<in> snd ` set (components c).
        (\<exists>e. x = Entity e \<and> e \<in> set (entities w)) \<or>
        (\<exists>p. x = Primitive p \<and> StoredPrimitive p \<in> set (primitives w))}"
    using visibleComponents_iff [of _ c w] by blast
qed

text \<open>The same with the orbit's batch installed in the scene.\<close>

theorem visibleComponents_no_geometry_witness:
  "primitive (snd orbit_installed) =
     Some \<lparr>objId = 0, geometryInstances = 0, modelMatrix = FromRotationTranslation 7\<rparr> \<and>
   arrays (snd orbit_installed) 0 = [1] \<and>
   primitives (snd orbit_installed) = [BatchedPrimitive 0] \<and>
   GeometryInstance 1 \<in> snd ` set (components (fst orbit_installed)) \<and>
   GeometryInstance 1 \<notin> set (visibleComponents (fst orbit_installed) (snd orbit_installed))"
proof -
  have a: "primitive (snd orbit_installed) =
     Some \<lparr>objId = 0, geometryInstances = 0, modelMatrix = FromRotationTranslation 7\<rparr>"
    by code_simp
  have a2: "arrays (snd orbit_installed) 0 = [1]"
    by code_simp
  have b: "primitives (snd orbit_installed) = [BatchedPrimitive 0]"
    by code_simp
  have c: "GeometryInstance 1 \<in> snd ` set (components (fst orbit_installed))"
    by code_simp
  show ?thesis
    using a a2 b c
      visibleComponents_no_geometry [of 1 "fst orbit_installed" "snd orbit_installed"]
    by simp
qed

section \<open>Tracking properties\<close>

lemma onTickCalls_append: "onTickCalls r (xs @ ys) = onTickCalls r xs @ onTickCalls r ys"
  by (induction r xs rule: onTickCalls.induct) simp_all

lemma quiet_refl: "quiet w w"
  by (simp add: quiet_def)

lemma quiet_trans: "quiet a b \<Longrightarrow> quiet b c \<Longrightarrow> quiet a c"
  unfolding quiet_def by (auto; force)

lemma setClosure_keys: "map fst (onTick (setClosure h l w)) = map fst (onTick w)"
  by (simp add: setClosure_def split_def comp_def if_distrib cong: if_cong)

lemma setClosure_handles: "fst ` set (onTick (setClosure h l w)) = fst ` set (onTick w)"
  using setClosure_keys [of h l w] by (metis list.set_map)

lemma quiet_setClosure: "quiet w (setClosure h l w)"
  by (simp add: quiet_def setClosure_handles) (simp add: setClosure_def)

lemma quiet_removeOnTick: "quiet w (removeOnTick h w)"
  using dom_delete_subset [of h "onTick w"] by (auto simp: quiet_def removeOnTick_def)

lemma quiet_addOnTick: "quiet w (snd (addOnTick l w))"
  by (auto simp: quiet_def addOnTick_def)

lemma quiet_fields:
  "quiet w (w\<lparr>primitivePendingUpdate := a\<rparr>)"
  "quiet w (w\<lparr>primitivePendingCreation := b\<rparr>)"
  "quiet w (w\<lparr>primitives := c\<rparr>)"
  "quiet w (w\<lparr>primitive := d\<rparr>)"
  "quiet w (w\<lparr>renderRequests := e\<rparr>)"
  "quiet w (w\<lparr>nextObject := g\<rparr>)"
  "quiet w (w\<lparr>primitiveUpdates := i\<rparr>)"
  "quiet w (w\<lparr>entities := j\<rparr>)"
  "quiet w (w\<lparr>arrays := k\<rparr>)"
  "quiet w (w\<lparr>currentTime := t\<rparr>)"
  by (simp_all add: quiet_def)

lemma quiet_recreate: "quiet w (recreateGeometryInstancePrimitive w)"
  by (auto simp: quiet_def recreateGeometryInstancePrimitive_def addOnTick_def)

lemma quiet_rebuildCallback: "quiet w (rebuildCallback h now w)"
proof -
  have "quiet w (removeOnTick h (snd (addOnTick l (w\<lparr>primitivePendingUpdate := False,
          primitivePendingCreation := True, nextObject := n\<rparr>))))" for l n
    using dom_delete_subset [of h "onTick w @ [(nextHandle w, l)]"]
    by (auto simp: quiet_def removeOnTick_def addOnTick_def)
  then show ?thesis
    by (auto simp: rebuildCallback_def Let_def split_def quiet_def split: option.splits)
qed

lemma quiet_readyListener: "quiet w (readyListener f h p ls w)"
proof -
  have a: "fst ` set (AList.delete h (onTick w)) \<subseteq> fst ` set (onTick w)"
    by (rule dom_delete_subset)
  show ?thesis
    using a setClosure_handles [of h "ReadyPoll p (candidateState f)" w]
    by (auto simp: readyListener_def Let_def quiet_def removeOnTick_def split: option.splits)
       (auto simp: setClosure_def)
qed

lemma callListener_quiet: "l \<noteq> TrackedTick \<Longrightarrow> quiet w (callListener f h l w)"
proof (cases l)
  case (PeriodicTick n t)
  have "quiet w (setClosure h x (rebuildCallback h now w))" for x now
    using quiet_trans [OF quiet_rebuildCallback quiet_setClosure] .
  then show ?thesis
    using PeriodicTick quiet_setClosure [of w h]
    by (simp add: callListener_def periodicTickListener_def)
next
  case (ReadyPoll p ls)
  then show ?thesis by (simp add: callListener_def quiet_readyListener)
next
  case TrackedTick
  moreover assume "l \<noteq> TrackedTick"
  ultimately show ?thesis by simp
qed

lemma callListener_tracked:
  "callListener f h TrackedTick w = w\<lparr>calls := calls w @ [OnTickCall h (currentTime w)]\<rparr>"
  by (simp add: callListener_def)

lemma raiseOnTick_inv:
  assumes q: "\<And>w w'. quiet w w' \<Longrightarrow> P w \<Longrightarrow> P w'"
      and t: "\<And>w h. P w \<Longrightarrow> h \<in> fst ` set (onTick w) \<Longrightarrow>
                P (w\<lparr>calls := calls w @ [OnTickCall h (currentTime w)]\<rparr>)"
      and p: "P w"
  shows "P (raiseOnTick f hs w)"
  using p
proof (induction hs arbitrary: w)
  case Nil
  then show ?case by simp
next
  case (Cons h hs)
  have "P (case map_of (onTick w) h of None \<Rightarrow> w | Some l \<Rightarrow> callListener f h l w)"
  proof (cases "map_of (onTick w) h")
    case None
    then show ?thesis using Cons.prems by simp
  next
    case (Some l)
    then have mem: "h \<in> fst ` set (onTick w)"
      by (metis map_of_eq_None_iff option.distinct(1))
    show ?thesis
    proof (cases "l = TrackedTick")
      case True
      then show ?thesis using Some t [OF Cons.prems mem] by (simp add: callListener_tracked)
    next
      case False
      then show ?thesis using Some q [OF callListener_quiet Cons.prems] by simp
    qed
  qed
  then show ?case by (simp add: Cons.IH)
qed

lemma tick_inv:
  assumes q: "\<And>w w'. quiet w w' \<Longrightarrow> P w \<Longrightarrow> P w'"
      and t: "\<And>w h. P w \<Longrightarrow> h \<in> fst ` set (onTick w) \<Longrightarrow>
                P (w\<lparr>calls := calls w @ [OnTickCall h (currentTime w)]\<rparr>)"
      and p: "P w"
  shows "P (tick f w)"
proof -
  have p1: "P (w\<lparr>currentTime := frameTime f\<rparr>)"
    using q [OF quiet_fields(10) p] .
  show ?thesis
    unfolding tick_def Let_def by (rule raiseOnTick_inv [where P = P, OF q t p1])
qed

lemma quiet_enableComponent: "quiet (snd cw) (snd (enableComponent n cw))"
proof (cases cw)
  case (Pair c w)
  have "quiet w (recreateGeometryInstancePrimitive (w\<lparr>arrays := g\<rparr>))" for g
    using quiet_trans [OF quiet_fields(9) quiet_recreate] .
  then show ?thesis
    using Pair
    by (auto simp: enableComponent_def Let_def quiet_refl quiet_fields
          split: option.splits component.splits)
qed

lemma quiet_withdraw: "quiet w (withdraw x w)"
proof -
  have "quiet w (w\<lparr>arrays := a, geometries := g, nextArray := n\<rparr>)" for a g n
    by (simp add: quiet_def)
  then have "quiet w (recreateGeometryInstancePrimitive
                (w\<lparr>arrays := a, geometries := g, nextArray := n\<rparr>))" for a g n
    using quiet_trans [OF _ quiet_recreate] by blast
  then show ?thesis
    by (auto simp: withdraw_def quiet_refl quiet_fields split: component.splits)
qed

lemma quiet_disableComponent: "quiet (snd cw) (snd (disableComponent n cw))"
  by (cases cw) (auto simp: disableComponent_def Let_def quiet_refl quiet_withdraw
        split: option.splits)

lemma quiet_show_components: "quiet (snd cw) (snd (show_components ns cw))"
  unfolding show_components_def
proof (induction ns arbitrary: cw)
  case Nil
  show ?case by (simp add: quiet_refl)
next
  case (Cons n ns)
  show ?case
    using quiet_trans [OF quiet_enableComponent Cons.IH] by simp
qed

lemma quiet_hide: "quiet (snd cw) (snd (hide ns cw))"
  unfolding hide_def
proof (induction ns arbitrary: cw)
  case Nil
  show ?case by (simp add: quiet_refl)
next
  case (Cons n ns)
  show ?case
    using quiet_trans [OF quiet_disableComponent Cons.IH] by simp
qed

lemma step_inv:
  assumes q: "\<And>w w'. quiet w w' \<Longrightarrow> P w \<Longrightarrow> P w'"
      and t: "\<And>w h. P w \<Longrightarrow> h \<in> fst ` set (onTick w) \<Longrightarrow>
                P (w\<lparr>calls := calls w @ [OnTickCall h (currentTime w)]\<rparr>)"
      and s: "\<And>w. P w \<Longrightarrow> P (snd (setTrackedOnTickCallback w))"
      and e: "e \<noteq> TrackedEntityChanged"
      and p: "P (snd cw)"
  shows "P (snd (step e cw))"
proof (cases e)
  case (Enable n)
  then show ?thesis using q [OF quiet_enableComponent p] by (simp add: step_def)
next
  case (Disable n)
  then show ?thesis using q [OF quiet_disableComponent p] by (simp add: step_def)
next
  case (Show ns)
  then show ?thesis using q [OF quiet_show_components p] by (simp add: step_def)
next
  case (Hide ns)
  then show ?thesis using q [OF quiet_hide p] by (simp add: step_def)
next
  case ShowAll
  then show ?thesis using q [OF quiet_show_components p] by (simp add: step_def show_default_def)
next
  case HideAll
  then show ?thesis using q [OF quiet_hide p] by (simp add: step_def hide_default_def)
next
  case (Frame f)
  then show ?thesis using tick_inv [where P = P, OF q t p] by (simp add: step_def)
next
  case TrackedEntityChanged
  then show ?thesis using e by simp
next
  case SetTrackedOnTickCallback
  then show ?thesis using s [OF p] by (simp add: step_def)
qed

lemma run_inv:
  assumes q: "\<And>w w'. quiet w w' \<Longrightarrow> P w \<Longrightarrow> P w'"
      and t: "\<And>w h. P w \<Longrightarrow> h \<in> fst ` set (onTick w) \<Longrightarrow>
                P (w\<lparr>calls := calls w @ [OnTickCall h (currentTime w)]\<rparr>)"
      and s: "\<And>w. P w \<Longrightarrow> P (snd (setTrackedOnTickCallback w))"
      and c: "\<And>w. P w \<Longrightarrow> TrackedEntityChanged \<in> set es \<Longrightarrow> P (trackedEntityChange w)"
      and p: "P (snd cw)"
  shows "P (snd (run es cw))"
  using c p unfolding run_def
proof (induction es arbitrary: cw)
  case Nil
  then show ?case by simp
next
  case (Cons e es)
  have "P (snd (step e cw))"
  proof (cases "e = TrackedEntityChanged")
    case True
    then show ?thesis using Cons.prems by (simp add: step_def)
  next
    case False
    then show ?thesis using step_inv [where P = P, OF q t s False] Cons.prems(2) by simp
  qed
  then show ?case using Cons.IH Cons.prems(1) by simp
qed

lemma onUntrackCalls_tick [simp]:
  "onUntrackCalls r (cs @ [OnTickCall h t]) = onUntrackCalls r cs"
  by (simp add: onUntrackCalls_def)

lemma fresh_quiet: "quiet w w' \<Longrightarrow> handles_fresh w \<Longrightarrow> handles_fresh w'"
  unfolding quiet_def handles_fresh_def
  by (auto; force)

lemma fresh_tracked_call:
  "handles_fresh w \<Longrightarrow> h \<in> fst ` set (onTick w) \<Longrightarrow>
   handles_fresh (w\<lparr>calls := calls w @ [OnTickCall h t]\<rparr>)"
  unfolding handles_fresh_def by auto

lemma fresh_setTracked:
  "handles_fresh w \<Longrightarrow> handles_fresh (snd (setTrackedOnTickCallback w))"
  unfolding handles_fresh_def setTrackedOnTickCallback_def addOnTick_def addChanged_def
  by (auto simp: Let_def less_Suc_eq; force)

lemma cancelled_quiet: "quiet w w' \<Longrightarrow> cancelled r C U w \<Longrightarrow> cancelled r C U w'"
  unfolding cancelled_def using fresh_quiet [of w w']
  by (auto simp: quiet_def)

lemma cancelled_tracked_call:
  "cancelled r C U w \<Longrightarrow> h \<in> fst ` set (onTick w) \<Longrightarrow>
   cancelled r C U (w\<lparr>calls := calls w @ [OnTickCall h t]\<rparr>)"
  unfolding cancelled_def using fresh_tracked_call [of w h t]
  by (auto simp: onTickCalls_append)

lemma cancelled_setTracked:
  "cancelled r C U w \<Longrightarrow> cancelled r C U (snd (setTrackedOnTickCallback w))"
  unfolding cancelled_def using fresh_setTracked [of w]
  by (auto simp: setTrackedOnTickCallback_def addOnTick_def addChanged_def Let_def)

lemma tracking_quiet: "quiet w w' \<Longrightarrow> tracking r w \<Longrightarrow> tracking r w'"
  unfolding tracking_def using fresh_quiet [of w w']
  by (auto simp: quiet_def)

lemma tracking_tracked_call:
  "tracking r w \<Longrightarrow> h \<in> fst ` set (onTick w) \<Longrightarrow>
   tracking r (w\<lparr>calls := calls w @ [OnTickCall h t]\<rparr>)"
  unfolding tracking_def using fresh_tracked_call [of w h t]
  by auto

lemma tracking_less: "tracking r w \<Longrightarrow> r < nextHandle w"
proof -
  assume a: "tracking r w"
  then have m: "(Suc r, Untrack r) \<in> set (trackedEntityChanged w)"
    by (simp add: tracking_def)
  have "\<forall>e \<in> set (trackedEntityChanged w). untrack_target (snd e) < nextHandle w"
    using a by (simp add: tracking_def handles_fresh_def)
  then have "untrack_target (snd (Suc r, Untrack r)) < nextHandle w"
    using m by blast
  then show ?thesis by simp
qed

lemma tracking_setTracked:
  "tracking r w \<Longrightarrow> tracking r (snd (setTrackedOnTickCallback w))"
  using tracking_less [of r w] fresh_setTracked [of w]
  unfolding tracking_def
  by (auto simp: setTrackedOnTickCallback_def addOnTick_def addChanged_def Let_def)

lemma tracking_registered:
  assumes "handles_fresh w"
  shows "tracking (fst (setTrackedOnTickCallback w)) (snd (setTrackedOnTickCallback w))"
proof -
  have a: "(k, Untrack (nextHandle w)) \<notin> set (trackedEntityChanged w)" for k
  proof
    assume m: "(k, Untrack (nextHandle w)) \<in> set (trackedEntityChanged w)"
    have "\<forall>e \<in> set (trackedEntityChanged w). untrack_target (snd e) < nextHandle w"
      using assms by (simp add: handles_fresh_def)
    then have "untrack_target (snd (k, Untrack (nextHandle w))) < nextHandle w"
      using m by blast
    then show False by simp
  qed
  have b: "OnUntrackCall (nextHandle w) \<notin> set (calls w)"
  proof
    assume m: "OnUntrackCall (nextHandle w) \<in> set (calls w)"
    have "\<forall>c \<in> set (calls w). call_handle c < nextHandle w"
      using assms by (simp add: handles_fresh_def)
    then have "call_handle (OnUntrackCall (nextHandle w)) < nextHandle w"
      using m by blast
    then show False by simp
  qed
  show ?thesis
    using a b fresh_setTracked [OF assms]
    unfolding tracking_def onUntrackCalls_def
    by (auto simp: setTrackedOnTickCallback_def addOnTick_def addChanged_def Let_def)
qed

lemma raiseChanged_all:
  "distinct (map fst (trackedEntityChanged w)) \<Longrightarrow>
   raiseChanged (map fst (trackedEntityChanged w)) w =
     w\<lparr>onTick := filter (\<lambda>(h, l). Untrack h \<notin> snd ` set (trackedEntityChanged w)) (onTick w),
       trackedEntityChanged := [],
       calls := calls w @ map untrack_call (trackedEntityChanged w)\<rparr>"
proof (induction "trackedEntityChanged w" arbitrary: w)
  case Nil
  then show ?case by simp
next
  case (Cons e es)
  obtain k j where e: "e = (k, Untrack j)"
    by (metis changed_listener.exhaust surj_pair)
  have L: "trackedEntityChanged w = (k, Untrack j) # es"
    using Cons.hyps(2) e by simp
  have notin: "k \<notin> fst ` set es" using Cons.prems L by simp
  let ?w1 = "callChanged k (Untrack j) w"
  have w1: "?w1 = w\<lparr>onTick := AList.delete j (onTick w), trackedEntityChanged := es,
                     calls := calls w @ [OnUntrackCall j]\<rparr>"
    using L notin by (simp add: callChanged_def removeOnTick_def removeChanged_def Let_def)
  have es: "es = trackedEntityChanged ?w1" by (simp add: w1)
  have d: "distinct (map fst (trackedEntityChanged ?w1))"
    using Cons.prems L by (simp add: w1)
  have f: "filter (\<lambda>(h, l). Untrack h \<notin> snd ` set es) (AList.delete j (onTick w)) =
           filter (\<lambda>(h, l). Untrack h \<notin> snd ` set ((k, Untrack j) # es)) (onTick w)"
    by (auto simp: AList.delete_eq intro!: filter_cong)
  have "raiseChanged (map fst (trackedEntityChanged w)) w = raiseChanged (map fst es) ?w1"
    using L by simp
  also have "\<dots> = ?w1\<lparr>onTick := filter (\<lambda>(h, l). Untrack h \<notin> snd ` set es) (onTick ?w1),
       trackedEntityChanged := [], calls := calls ?w1 @ map untrack_call es\<rparr>"
    using Cons.hyps(1) [OF es d] by (simp add: w1)
  finally show ?case
    using f L by (simp add: w1 untrack_call_def)
qed

lemma count_single:
  "distinct (map fst L) \<Longrightarrow> (k0, v0) \<in> set L \<Longrightarrow> \<forall>k. (k, v0) \<in> set L \<longrightarrow> k = k0 \<Longrightarrow>
   length (filter (\<lambda>e. snd e = v0) L) = 1"
proof (induction L)
  case Nil
  then show ?case by simp
next
  case (Cons e L)
  obtain k v where e: "e = (k, v)" by (cases e)
  show ?case
  proof (cases "v = v0")
    case True
    then have k: "k = k0" using Cons.prems(3) e by simp
    have "snd x \<noteq> v0" if x: "x \<in> set L" for x
    proof
      assume v: "snd x = v0"
      obtain a b where ab: "x = (a, b)" by (cases x)
      have "(a, v0) \<in> set L" using x v ab by simp
      then have "a = k0" using Cons.prems(3) by simp
      then have "k0 \<in> fst ` set L" using x ab by force
      then show False using Cons.prems(1) e k by simp
    qed
    then have "filter (\<lambda>e. snd e = v0) L = []"
      by (simp add: filter_empty_conv)
    then show ?thesis using True e by simp
  next
    case False
    have d: "distinct (map fst L)" using Cons.prems(1) by simp
    have m: "(k0, v0) \<in> set L" using Cons.prems(2) e False by simp
    have u: "\<forall>k. (k, v0) \<in> set L \<longrightarrow> k = k0" using Cons.prems(3) by simp
    have "length (filter (\<lambda>e. snd e = v0) L) = 1"
      using Cons.IH [OF d m u] .
    then show ?thesis using False e by simp
  qed
qed

lemma count_untrack_calls:
  "onUntrackCalls r (map untrack_call L) = length (filter (\<lambda>e. snd e = Untrack r) L)"
  unfolding onUntrackCalls_def
  by (induction L) (auto simp: untrack_call_def split: changed_listener.splits)

lemma onTickCalls_untrack [simp]: "onTickCalls r (map untrack_call L) = []"
  by (induction L) (auto simp: untrack_call_def split: changed_listener.splits)

lemma onUntrackCalls_append:
  "onUntrackCalls r (xs @ ys) = onUntrackCalls r xs + onUntrackCalls r ys"
  by (simp add: onUntrackCalls_def)

lemma fresh_change: "handles_fresh w \<Longrightarrow> handles_fresh (trackedEntityChange w)"
proof -
  assume a: "handles_fresh w"
  then have d: "distinct (map fst (trackedEntityChanged w))" by (simp add: handles_fresh_def)
  have "\<forall>c \<in> set (map untrack_call (trackedEntityChanged w)). call_handle c < nextHandle w"
    using a unfolding handles_fresh_def untrack_call_def
    by (auto split: changed_listener.splits)
  then show ?thesis
    using a unfolding trackedEntityChange_def raiseChanged_all [OF d] handles_fresh_def
    by auto
qed

lemma cancelled_change: "cancelled r C U w \<Longrightarrow> cancelled r C U (trackedEntityChange w)"
proof -
  assume a: "cancelled r C U w"
  then have d: "distinct (map fst (trackedEntityChanged w))"
    by (simp add: cancelled_def handles_fresh_def)
  have "filter (\<lambda>e. snd e = Untrack r) (trackedEntityChanged w) = []"
    using a unfolding cancelled_def by (force simp: filter_empty_conv)
  then have "onUntrackCalls r (map untrack_call (trackedEntityChanged w)) = 0"
    by (simp add: count_untrack_calls)
  then show ?thesis
    using a fresh_change [of w]
    unfolding cancelled_def trackedEntityChange_def raiseChanged_all [OF d]
    by (auto simp: onTickCalls_append onUntrackCalls_append)
qed

lemma tracking_change:
  assumes "tracking r w"
  shows "cancelled r (onTickCalls r (calls w)) 1 (trackedEntityChange w)"
proof -
  have d: "distinct (map fst (trackedEntityChanged w))"
    using assms by (simp add: tracking_def handles_fresh_def)
  have "length (filter (\<lambda>e. snd e = Untrack r) (trackedEntityChanged w)) = 1"
    using assms d unfolding tracking_def by (intro count_single [of _ "Suc r"]) auto
  then have one: "onUntrackCalls r (map untrack_call (trackedEntityChanged w)) = 1"
    by (simp add: count_untrack_calls)
  have mem: "Untrack r \<in> snd ` set (trackedEntityChanged w)"
    using assms unfolding tracking_def by force
  have gone: "r \<notin> fst ` set (filter (\<lambda>(h, l). Untrack h \<notin> snd ` set (trackedEntityChanged w))
                 (onTick w))"
    using mem by force
  show ?thesis
    using assms one gone fresh_change [of w] tracking_less [OF assms]
    unfolding cancelled_def trackedEntityChange_def raiseChanged_all [OF d] tracking_def
    by (simp add: onTickCalls_append onUntrackCalls_append)
qed

lemma fresh_initial: "handles_fresh initial_world"
  by (simp add: handles_fresh_def initial_world_def)

lemma fresh_run: "handles_fresh (snd cw) \<Longrightarrow> handles_fresh (snd (run es cw))"
  by (rule run_inv [where P = handles_fresh])
     (auto intro: fresh_quiet fresh_tracked_call fresh_setTracked fresh_change)

lemma cancelled_run: "cancelled r C U (snd cw) \<Longrightarrow> cancelled r C U (snd (run es cw))"
  by (rule run_inv [where P = "cancelled r C U"])
     (auto intro: cancelled_quiet cancelled_tracked_call cancelled_setTracked cancelled_change)

lemma tracking_run:
  "TrackedEntityChanged \<notin> set es \<Longrightarrow> tracking r (snd cw) \<Longrightarrow> tracking r (snd (run es cw))"
  by (rule run_inv [where P = "tracking r"])
     (auto intro: tracking_quiet tracking_tracked_call tracking_setTracked)

text \<open>
  C8. Take any session up to a call of \<^verbatim>\<open>setTrackedOnTickCallback\<close>, which makes
  registration \<open>r\<close>, then any steps without a change of the tracked entity, then such a
  change, then any steps at all. After the change neither the per-tick listener nor
  the change listener of \<open>r\<close> is registered; the untrack callback of \<open>r\<close> had not run
  before the change, has run once after it, and has run once at the end of the session;
  and the per-tick callback of \<open>r\<close> has run at the end exactly at the times it had run
  before the change.
\<close>

theorem tracked_callback_cancelled_once:
  assumes "TrackedEntityChanged \<notin> set mid"
  shows "let a = run pre (c, initial_world);
             r = fst (setTrackedOnTickCallback (snd a));
             b = run (SetTrackedOnTickCallback # mid) a;
             d = step TrackedEntityChanged b;
             e = run post d
         in r \<notin> fst ` set (onTick (snd d)) \<and>
            Untrack r \<notin> snd ` set (trackedEntityChanged (snd d)) \<and>
            onUntrackCalls r (calls (snd b)) = 0 \<and>
            onUntrackCalls r (calls (snd d)) = 1 \<and>
            onUntrackCalls r (calls (snd e)) = 1 \<and>
            onTickCalls r (calls (snd e)) = onTickCalls r (calls (snd b))"
proof -
  define a where "a = run pre (c, initial_world :: 'a world)"
  define r where "r = fst (setTrackedOnTickCallback (snd a))"
  define a1 where "a1 = step SetTrackedOnTickCallback a"
  define b where "b = run (SetTrackedOnTickCallback # mid) a"
  define d where "d = step TrackedEntityChanged b"
  define e where "e = run post d"
  have "handles_fresh (snd a)"
    unfolding a_def by (rule fresh_run) (simp add: fresh_initial)
  then have "tracking r (snd a1)"
    unfolding r_def a1_def using tracking_registered by (simp add: step_def)
  moreover have b: "b = run mid a1" by (simp add: b_def a1_def run_def)
  ultimately have tb: "tracking r (snd b)"
    using tracking_run [OF assms] by simp
  then have cd: "cancelled r (onTickCalls r (calls (snd b))) 1 (snd d)"
    unfolding d_def using tracking_change by (simp add: step_def)
  then have ce: "cancelled r (onTickCalls r (calls (snd b))) 1 (snd e)"
    unfolding e_def by (rule cancelled_run)
  show ?thesis
    using tb cd ce
    unfolding Let_def a_def [symmetric] r_def [symmetric] b_def [symmetric]
      d_def [symmetric] e_def [symmetric]
    by (simp add: tracking_def cancelled_def)
qed

theorem tracked_callback_cancelled_once_witness:
  "TrackedEntityChanged \<notin> set [Frame (ready_frame 1), Enable ''Orbit track'', Frame (ready_frame 2)] \<and>
   (let a = run [Enable ''Orbit''] (satellite, initial_world);
        r = fst (setTrackedOnTickCallback (snd a));
        b = run (SetTrackedOnTickCallback #
                 [Frame (ready_frame 1), Enable ''Orbit track'', Frame (ready_frame 2)]) a;
        d = step TrackedEntityChanged b;
        e = run [Frame (ready_frame 3), SetTrackedOnTickCallback, Frame (ready_frame 4),
                 TrackedEntityChanged, Frame (ready_frame 5)] d
    in r \<notin> fst ` set (onTick (snd d)) \<and>
       Untrack r \<notin> snd ` set (trackedEntityChanged (snd d)) \<and>
       onUntrackCalls r (calls (snd b)) = 0 \<and>
       onUntrackCalls r (calls (snd d)) = 1 \<and>
       onUntrackCalls r (calls (snd e)) = 1 \<and>
       onTickCalls r (calls (snd e)) = onTickCalls r (calls (snd b))) \<and>
   calls (snd (run ([Enable ''Orbit'', SetTrackedOnTickCallback, Frame (ready_frame 1),
       Enable ''Orbit track'', Frame (ready_frame 2), TrackedEntityChanged,
       Frame (ready_frame 3), SetTrackedOnTickCallback, Frame (ready_frame 4),
       TrackedEntityChanged, Frame (ready_frame 5)]) (satellite, initial_world :: julian world)))
     = [OnTickCall 1 1, OnTickCall 1 2, OnUntrackCall 1, OnTickCall 3 4, OnUntrackCall 3]"
proof -
  have h: "TrackedEntityChanged \<notin>
      set [Frame (ready_frame 1), Enable ''Orbit track'', Frame (ready_frame 2) :: julian step]"
    by simp
  have ev: "calls (snd (run ([Enable ''Orbit'', SetTrackedOnTickCallback, Frame (ready_frame 1),
       Enable ''Orbit track'', Frame (ready_frame 2), TrackedEntityChanged,
       Frame (ready_frame 3), SetTrackedOnTickCallback, Frame (ready_frame 4),
       TrackedEntityChanged, Frame (ready_frame 5)]) (satellite, initial_world :: julian world)))
     = [OnTickCall 1 1, OnTickCall 1 2, OnUntrackCall 1, OnTickCall 3 4, OnUntrackCall 3]"
    by code_simp
  show ?thesis
    using h ev tracked_callback_cancelled_once [OF h, of "[Enable ''Orbit'']" satellite
        "[Frame (ready_frame 3), SetTrackedOnTickCallback, Frame (ready_frame 4),
          TrackedEntityChanged, Frame (ready_frame 5)]"]
    by blast
qed

section \<open>Rebuild properties\<close>

lemma map_of_closure:
  "k \<noteq> h \<Longrightarrow> map_of (map (\<lambda>(a, v). if a = k then (a, l) else (a, v)) xs) h = map_of xs h"
  by (induction xs) auto

lemma pending_setClosure:
  "k \<noteq> h \<Longrightarrow> poll_pending t h x w \<Longrightarrow> poll_pending t h x (setClosure k l w)"
  by (simp add: poll_pending_def setClosure_def map_of_closure)

lemma pending_removeOnTick:
  "k \<noteq> h \<Longrightarrow> poll_pending t h x w \<Longrightarrow> poll_pending t h x (removeOnTick k w)"
  by (simp add: poll_pending_def removeOnTick_def)

lemma pending_addOnTick:
  "poll_pending t h x w \<Longrightarrow> poll_pending t h x (snd (addOnTick l w))"
  by (simp add: poll_pending_def addOnTick_def)

lemma pending_rebuildCallback:
  assumes "k \<noteq> h" and "poll_pending t h x w"
  shows "poll_pending t h x (rebuildCallback k now w)"
proof -
  have "poll_pending t h x (removeOnTick k (snd (addOnTick l (w\<lparr>primitivePendingUpdate := False,
          primitivePendingCreation := True, nextObject := n\<rparr>))))" for l n
    using assms by (simp add: poll_pending_def removeOnTick_def addOnTick_def)
  then show ?thesis
    using assms(2)
    by (auto simp: rebuildCallback_def Let_def split_def poll_pending_def split: option.splits)
qed

lemma pending_readyListener:
  assumes "k \<noteq> h" and "poll_pending t h x w"
  shows "poll_pending t h x (readyListener f k p ls w)"
  using assms
  by (auto simp: readyListener_def Let_def poll_pending_def removeOnTick_def setClosure_def
        map_of_closure split: option.splits)

lemma pending_callListener:
  assumes "k \<noteq> h" and "poll_pending t h x w"
  shows "poll_pending t h x (callListener f k l w)"
proof (cases l)
  case (PeriodicTick n c)
  show ?thesis
    using PeriodicTick pending_setClosure [OF assms(1) pending_rebuildCallback [OF assms]]
      pending_setClosure [OF assms]
    by (simp add: callListener_def periodicTickListener_def)
next
  case (ReadyPoll p ls)
  then show ?thesis using pending_readyListener [OF assms] by (simp add: callListener_def)
next
  case TrackedTick
  then show ?thesis using assms(2) by (simp add: callListener_def poll_pending_def)
qed

lemma pending_raiseOnTick:
  "h \<notin> set hs \<Longrightarrow> poll_pending t h x w \<Longrightarrow> poll_pending t h x (raiseOnTick f hs w)"
proof (induction hs arbitrary: w)
  case Nil
  then show ?case by simp
next
  case (Cons k hs)
  then have "poll_pending t h x (case map_of (onTick w) k of None \<Rightarrow> w
                                   | Some l \<Rightarrow> callListener f k l w)"
    by (auto simp: pending_callListener split: option.splits)
  then show ?case using Cons by simp
qed

lemma raiseOnTick_append:
  "raiseOnTick f (xs @ ys) w = raiseOnTick f ys (raiseOnTick f xs w)"
  by (induction xs arbitrary: w) simp_all

lemma readyListener_installs:
  assumes "candidateReady f"
  shows "primitive (readyListener f h prim ls w) =
           Some (case computeIcrfToFixedMatrix f (currentTime w) of
                   Some m \<Rightarrow> prim\<lparr>modelMatrix := FromRotationTranslation m\<rparr>
                 | None \<Rightarrow> prim)"
    and "BatchedPrimitive (objId prim) \<in> set (primitives (readyListener f h prim ls w))"
    and "\<not> primitivePendingCreation (readyListener f h prim ls w)"
    and "h \<notin> fst ` set (onTick (readyListener f h prim ls w))"
  using assms delete_notin_dom [of h "onTick w"]
  by (auto simp: readyListener_def Let_def removeOnTick_def split: option.splits)

text \<open>
  C2, as the code has it. Let the readiness poll of a candidate be registered, and let a
  frame show the candidate ready. When the poll's turn comes in that frame, the candidate
  is installed at once: it becomes the current primitive and is added to the scene, the
  creation is no longer pending and the poll is removed. Its transform is the rotation
  the provider computes for the time of this frame, or, if the provider returns
  \<^verbatim>\<open>undefined\<close>, the transform it already had. The listeners registered after the poll
  then take their turn.
\<close>

theorem ready_candidate_installed_at_completion:
  assumes "onTick w = before @ [(h, ReadyPoll prim lastState)] @ after"
      and "h \<notin> fst ` set before"
      and "candidateReady f"
  shows "let wb = raiseOnTick f (map fst before) (w\<lparr>currentTime := frameTime f\<rparr>);
             wi = readyListener f h prim lastState wb
         in tick f w = raiseOnTick f (map fst after) wi \<and>
            primitive wi =
              Some (case computeIcrfToFixedMatrix f (frameTime f) of
                      Some m \<Rightarrow> prim\<lparr>modelMatrix := FromRotationTranslation m\<rparr>
                    | None \<Rightarrow> prim) \<and>
            BatchedPrimitive (objId prim) \<in> set (primitives wi) \<and>
            \<not> primitivePendingCreation wi \<and>
            h \<notin> fst ` set (onTick wi)"
proof -
  define w1 where "w1 = w\<lparr>currentTime := frameTime f\<rparr>"
  define wb where "wb = raiseOnTick f (map fst before) w1"
  define wi where "wi = readyListener f h prim lastState wb"
  have "map_of before h = None"
    using assms(2) by (simp add: map_of_eq_None_iff)
  then have "poll_pending (frameTime f) h (ReadyPoll prim lastState) w1"
    using assms(1) by (simp add: poll_pending_def w1_def map_add_def)
  then have pb: "poll_pending (frameTime f) h (ReadyPoll prim lastState) wb"
    unfolding wb_def using assms(2) by (intro pending_raiseOnTick) simp_all
  have "tick f w = raiseOnTick f (map fst before @ h # map fst after) w1"
    using assms(1) by (simp add: tick_def w1_def)
  also have "\<dots> = raiseOnTick f (map fst after) wi"
    using pb by (simp add: raiseOnTick_append wb_def wi_def poll_pending_def callListener_def)
  finally have t: "tick f w = raiseOnTick f (map fst after) wi" .
  have ct: "currentTime wb = frameTime f" using pb by (simp add: poll_pending_def)
  show ?thesis
    using t readyListener_installs [OF assms(3), where h = h and prim = prim and ls = lastState and w = wb] ct
    unfolding Let_def w1_def [symmetric] wb_def [symmetric] wi_def [symmetric]
    by simp
qed

theorem ready_candidate_installed_at_completion_witness:
  "onTick (snd mutated_while_creating) =
     [(3, PeriodicTick 30 0)] @
     [(4, ReadyPoll \<lparr>objId = 1, geometryInstances = 1, modelMatrix = IDENTITY\<rparr> (- 1))] @
     [(5, PeriodicTick 30 0)] \<and>
   4 \<notin> fst ` set [(3 :: nat, PeriodicTick 30 0 :: julian listener)] \<and>
   candidateReady (ready_frame 10) \<and>
   (let wb = raiseOnTick (ready_frame 10) (map fst [(3 :: nat, PeriodicTick 30 0 :: julian listener)])
               ((snd mutated_while_creating)\<lparr>currentTime := frameTime (ready_frame 10)\<rparr>);
        wi = readyListener (ready_frame 10) 4
               \<lparr>objId = 1, geometryInstances = 1, modelMatrix = IDENTITY\<rparr> (- 1) wb
    in tick (ready_frame 10) (snd mutated_while_creating) =
         raiseOnTick (ready_frame 10) (map fst [(5 :: nat, PeriodicTick 30 0 :: julian listener)]) wi \<and>
       primitive wi =
         Some (case computeIcrfToFixedMatrix (ready_frame 10) (frameTime (ready_frame 10)) of
                 Some m \<Rightarrow> \<lparr>objId = 1, geometryInstances = 1, modelMatrix = IDENTITY\<rparr>
                             \<lparr>modelMatrix := FromRotationTranslation m\<rparr>
               | None \<Rightarrow> \<lparr>objId = 1, geometryInstances = 1, modelMatrix = IDENTITY\<rparr>) \<and>
       BatchedPrimitive
           (objId \<lparr>objId = 1, geometryInstances = 1, modelMatrix = IDENTITY :: julian matrix4\<rparr>)
         \<in> set (primitives wi) \<and>
       \<not> primitivePendingCreation wi \<and>
       4 \<notin> fst ` set (onTick wi)) \<and>
   primitive (tick (ready_frame 10) (snd mutated_while_creating)) =
     Some \<lparr>objId = 1, geometryInstances = 1, modelMatrix = FromRotationTranslation 10\<rparr> \<and>
   arrays (snd mutated_while_creating) 1 = [2, 3] \<and>
   arrays (tick (ready_frame 10) (snd mutated_while_creating)) 1 = [2, 3]"
proof -
  have a: "onTick (snd mutated_while_creating) =
     [(3, PeriodicTick 30 0)] @
     [(4, ReadyPoll \<lparr>objId = 1, geometryInstances = 1, modelMatrix = IDENTITY\<rparr> (- 1))] @
     [(5, PeriodicTick 30 0)]"
    by code_simp
  have b: "4 \<notin> fst ` set [(3 :: nat, PeriodicTick 30 0 :: julian listener)]"
    by simp
  have c: "candidateReady (ready_frame 10)"
    by (simp add: ready_frame_def)
  have d: "primitive (tick (ready_frame 10) (snd mutated_while_creating)) =
     Some \<lparr>objId = 1, geometryInstances = 1, modelMatrix = FromRotationTranslation 10\<rparr>"
    by code_simp
  have e: "arrays (snd mutated_while_creating) 1 = [2, 3]"
    by code_simp
  have g: "arrays (tick (ready_frame 10) (snd mutated_while_creating)) 1 = [2, 3]"
    by code_simp
  show ?thesis
    using a b c d e g ready_candidate_installed_at_completion [OF a b c]
    by blast
qed

text \<open>
  C2, as the claim states it, fails: when the provider returns \<^verbatim>\<open>undefined\<close> on the
  frame that finds the candidate ready, the candidate is installed on that frame with
  the default transform and the poll is removed, so the next frame, on which the
  provider answers, changes nothing.
\<close>

theorem undefined_provider_no_retry:
  "primitive (snd installed_untransformed) =
     Some \<lparr>objId = 0, geometryInstances = 0, modelMatrix = IDENTITY\<rparr> \<and>
   arrays (snd installed_untransformed) 0 = [1] \<and>
   primitives (snd installed_untransformed) = [BatchedPrimitive 0] \<and>
   \<not> primitivePendingCreation (snd installed_untransformed) \<and>
   onTick (snd installed_untransformed) = [] \<and>
   primitive (snd (step (Frame (ready_frame 8)) installed_untransformed)) =
     Some \<lparr>objId = 0, geometryInstances = 0, modelMatrix = IDENTITY\<rparr>"
  by code_simp

text \<open>
  C3. A debounce timer that fires with an empty contribution set should be spent. In
  the session \<open>orbit_hidden\<close> the timer armed by hiding the orbit fires on the 31st
  frame, removes the batch from the scene, clears the current primitive and leaves both
  flags false, but its listener stays registered; with no further mutation it fires
  again 31 frames later (a third render request).
\<close>

theorem empty_firing_keeps_timer:
  "primitives (snd orbit_installed) = [BatchedPrimitive 0] \<and>
   primitives (snd orbit_hidden) = [] \<and>
   primitive (snd orbit_hidden) = None \<and>
   \<not> primitivePendingUpdate (snd orbit_hidden) \<and>
   \<not> primitivePendingCreation (snd orbit_hidden) \<and>
   renderRequests (snd orbit_hidden) = 2 \<and>
   onTick (snd orbit_hidden) = [(2, PeriodicTick 30 0)] \<and>
   renderRequests (snd (run (replicate 31 (Frame (ready_frame 8))) orbit_hidden)) = 3 \<and>
   onTick (snd (run (replicate 31 (Frame (ready_frame 8))) orbit_hidden)) = [(2, PeriodicTick 30 0)]"
  by code_simp

text \<open>
  C1. A mutation during a creation should queue one follow-up rebuild. In the session
  \<open>second_creation\<close> the timer left over in \<open>orbit_hidden\<close> starts the creation and
  clears \<open>primitivePendingUpdate\<close> while the timer armed by showing the orbit track is
  still registered; showing the ground track during the creation then arms another one,
  so two timers are queued, and in the 62 frames that follow two more primitives are
  created, the second on the same array as the first. The candidate in flight holds
  the contribution array itself, so it has the ground track too once it is pushed.
\<close>

theorem leaked_timer_queues_second_rebuild:
  "onTick (snd orbit_hidden) = [(2, PeriodicTick 30 0)] \<and>
   primitivePendingCreation (snd second_creation) \<and>
   nextObject (snd second_creation) = 2 \<and>
   onTick (snd second_creation) =
     [(3, PeriodicTick 30 0),
      (4, ReadyPoll \<lparr>objId = 1, geometryInstances = 1, modelMatrix = IDENTITY\<rparr> (- 1))] \<and>
   geometries (snd second_creation) = 1 \<and>
   arrays (snd second_creation) 1 = [2] \<and>
   geometries (snd mutated_while_creating) = 1 \<and>
   arrays (snd mutated_while_creating) 1 = [2, 3] \<and>
   onTick (snd mutated_while_creating) =
     [(3, PeriodicTick 30 0),
      (4, ReadyPoll \<lparr>objId = 1, geometryInstances = 1, modelMatrix = IDENTITY\<rparr> (- 1)),
      (5, PeriodicTick 30 0)] \<and>
   nextObject (snd (run (replicate 62 (Frame (ready_frame 10))) mutated_while_creating)) = 4 \<and>
   onTick (snd (run (replicate 62 (Frame (ready_frame 10))) mutated_while_creating)) =
     [(7, ReadyPoll \<lparr>objId = 3, geometryInstances = 1, modelMatrix = IDENTITY\<rparr> (- 1))] \<and>
   primitive (snd (run (replicate 62 (Frame (ready_frame 10))) mutated_while_creating)) =
     Some \<lparr>objId = 2, geometryInstances = 1, modelMatrix = FromRotationTranslation 10\<rparr> \<and>
   arrays (snd (run (replicate 62 (Frame (ready_frame 10))) mutated_while_creating)) 1 = [2, 3]"
  by code_simp

end
